theory Spec2Isabelle
  imports Main "HOL-Library.Word"
begin

unbundle bit_operations_syntax

section \<open>Torrent verification (xirvik/util.py)\<close>

subsection \<open>Bytes, paths and the local file system\<close>

type_synonym byte = "8 word"
type_synonym bytes = "byte list"

text \<open>
  What \<^verbatim>\<open>os.stat\<close>, \<^verbatim>\<open>open(name, 'rb')\<close> and \<^verbatim>\<open>os.path.isdir\<close> can see of a path:
  nothing, a directory (with the size \<^verbatim>\<open>stat\<close> reports for it), a file that can be
  sized but not opened, or a readable regular file with its contents.
\<close>

datatype node = Absent | Dir nat | Locked nat | File bytes

type_synonym filesystem = "string \<Rightarrow> node"

fun stat_size :: "node \<Rightarrow> nat option" where
  "stat_size Absent = None"
| "stat_size (Dir s) = Some s"
| "stat_size (Locked s) = Some s"
| "stat_size (File c) = Some (length c)"

fun open_rb :: "node \<Rightarrow> bytes option" where
  "open_rb (File c) = Some c"
| "open_rb _ = None"

fun isdir :: "node \<Rightarrow> bool" where
  "isdir (Dir s) = True"
| "isdir _ = False"

text \<open>\<^verbatim>\<open>os.path.join\<close> of two components, as posixpath defines it.\<close>

definition path_join :: "string \<Rightarrow> string \<Rightarrow> string" where
  "path_join a b =
     (if b \<noteq> [] \<and> hd b = CHR ''/'' then b
      else if a = [] \<or> last a = CHR ''/'' then a @ b
      else a @ ''/'' @ b)"

text \<open>\<^verbatim>\<open>'/'.join(segments)\<close>.\<close>

fun slash_join :: "string list \<Rightarrow> string" where
  "slash_join [] = []"
| "slash_join [x] = x"
| "slash_join (x # y # ys) = x @ ''/'' @ slash_join (y # ys)"

text \<open>\<^verbatim>\<open>f.read(n)\<close> on the unread rest of a file: everything when \<open>n\<close> is negative.\<close>

definition read_bytes :: "int \<Rightarrow> bytes \<Rightarrow> bytes" where
  "read_bytes n rest = (if n < 0 then rest else take (nat n) rest)"

subsection \<open>Exceptions\<close>

datatype message = Unable_to_get_hash_for_piece | Computed_hash_does_not_match

datatype error = IOError | UnboundLocalError | VerificationError message

subsection \<open>\<^verbatim>\<open>_chunks\<close>\<close>

text \<open>
  \<^verbatim>\<open>for i in range(0, len(l), n): yield l[i:i + n]\<close>. The only caller passes
  \<^verbatim>\<open>sha1().digest_size\<close>; a step of 0, for which \<^verbatim>\<open>range\<close> raises, gives no chunk here.
\<close>

function chunks :: "'a list \<Rightarrow> nat \<Rightarrow> 'a list list" where
  "chunks l n = (if n = 0 \<or> l = [] then [] else take n l # chunks (drop n l) n)"
  by pat_completeness auto
termination
  by (relation "measure (\<lambda>(l, n). length l)") auto

declare chunks.simps [simp del]

definition digest_size :: nat where
  "digest_size = 20"

subsection \<open>\<^verbatim>\<open>_get_torrent_pieces\<close>\<close>

text \<open>
  The generator's local variables between two files: \<open>buf\<close>, \<open>p_delta\<close> and \<open>size\<close>,
  the last one unbound (\<open>None\<close>) until a \<^verbatim>\<open>stat\<close> has succeeded.
\<close>

type_synonym gen_state = "bytes \<times> int \<times> nat option"

text \<open>
  The inner \<^verbatim>\<open>while True\<close> loop over one open file, \<open>rest\<close> being what is left to read.
  It returns the pieces yielded, and \<open>buf\<close> and \<open>p_delta\<close> at the \<^verbatim>\<open>break\<close>.
  Reading from a file that was opened does not fail.
\<close>

function read_loop :: "int \<Rightarrow> bytes \<Rightarrow> bytes \<Rightarrow> int \<Rightarrow> bytes list \<times> bytes \<times> int" where
  "read_loop piece_length rest buf p_delta =
     (let tmp = read_bytes p_delta rest;
          p_delta1 = p_delta - int (length tmp)
      in if tmp = [] then ([], buf, p_delta1)
         else let buf1 = buf @ tmp;
                  rest1 = drop (length tmp) rest
              in if int (length tmp) < p_delta1 then ([], buf1, p_delta1)
                 else if p_delta1 \<le> 0
                 then (case read_loop piece_length rest1 [] piece_length of
                         (ys, b, p) \<Rightarrow> (buf1 # ys, b, p))
                 else read_loop piece_length rest1 buf1 p_delta1)"
  by pat_completeness auto
termination
  by (relation "measure (\<lambda>(pl, rest, buf, pd). length rest)")
     (auto simp: read_bytes_def split: if_splits)

declare read_loop.simps [simp del]

text \<open>
  One pass of the \<^verbatim>\<open>for name in filenames\<close> body on the node found at the joined path.
  It returns what the pass yields (\<open>None\<close> is the \<^verbatim>\<open>yield None\<close> placeholder) and either
  the exception that leaves the generator or the variables for the next pass.
  After a failed \<^verbatim>\<open>stat\<close> the body goes on with the \<open>size\<close> of the file before, or with
  \<open>size\<close> unbound; an \<^verbatim>\<open>open\<close> that fails in the short-file branch is not caught.
\<close>

fun file_step :: "int \<Rightarrow> node \<Rightarrow> gen_state \<Rightarrow> bytes option list \<times> (error + gen_state)" where
  "file_step piece_length nd (buf, p_delta, size0) =
     (let (y0, size1) = (case stat_size nd of
                           None \<Rightarrow> ([None], size0)
                         | Some s \<Rightarrow> ([], Some s))
      in (case size1 of
            None \<Rightarrow> (y0, Inl UnboundLocalError)
          | Some sz \<Rightarrow>
              (if int sz \<le> piece_length \<and> p_delta > int sz
               then (case open_rb nd of
                       None \<Rightarrow> (y0, Inl IOError)
                     | Some tmp \<Rightarrow>
                         (let p_delta1 = p_delta - int (length tmp);
                              p_delta2 = (if p_delta1 \<le> 0 then piece_length else p_delta1)
                          in (y0, Inr (buf @ tmp, p_delta2, size1))))
               else (case open_rb nd of
                       None \<Rightarrow> (y0 @ [None], Inr (buf, p_delta, size1))
                     | Some c \<Rightarrow>
                         (case read_loop piece_length c buf p_delta of
                            (ys, b, p) \<Rightarrow> (y0 @ map Some ys, Inr (b, p, size1)))))))"

declare file_step.simps [simp del]

text \<open>
  The \<^verbatim>\<open>for\<close> loop and the last \<^verbatim>\<open>if buf: yield buf\<close>. The result is everything the
  generator yields when it is run to its end, and the exception that ended it, if any.
\<close>

fun pieces_from :: "filesystem \<Rightarrow> string \<Rightarrow> int \<Rightarrow> string list \<Rightarrow> gen_state
                     \<Rightarrow> bytes option list \<times> error option" where
  "pieces_from fs basepath piece_length [] st =
     (case st of (buf, p_delta, sz) \<Rightarrow> ((if buf \<noteq> [] then [Some buf] else []), None))"
| "pieces_from fs basepath piece_length (name # names) st =
     (case file_step piece_length (fs (path_join basepath name)) st of
        (ys, Inl e) \<Rightarrow> (ys, Some e)
      | (ys, Inr st') \<Rightarrow>
          (case pieces_from fs basepath piece_length names st' of
             (zs, e) \<Rightarrow> (ys @ zs, e)))"

definition get_torrent_pieces :: "filesystem \<Rightarrow> string list \<Rightarrow> string \<Rightarrow> int
                                   \<Rightarrow> bytes option list \<times> error option" where
  "get_torrent_pieces fs filenames basepath piece_length =
     pieces_from fs basepath piece_length filenames ([], piece_length, None)"

subsection \<open>\<^verbatim>\<open>verify_torrent_contents\<close>\<close>

text \<open>
  The \<^verbatim>\<open>info\<close> dictionary after \<^verbatim>\<open>bdecode\<close>, with its keys present and its names
  decoded: \<open>files\<close> is \<open>None\<close> for a torrent without the \<^verbatim>\<open>files\<close> key, and holds the
  \<^verbatim>\<open>path\<close> segments of every entry otherwise.
\<close>

record torrent =
  name :: string
  piece_length :: int
  pieces :: bytes
  files :: "string list list option"

text \<open>
  The \<^verbatim>\<open>for known_hash, piece in zip(piece_hashes, pieces)\<close> loop. \<^verbatim>\<open>zip\<close> asks the
  hashes first and stops when they end; it asks the generator next and stops when the
  generator ends, or lets the generator's exception through. \<open>sha1\<close> is the digest
  function; on the placeholder it raises the \<^verbatim>\<open>TypeError\<close> the loop turns into a
  \<^verbatim>\<open>VerificationError\<close>.
\<close>

fun compare_pieces :: "(bytes \<Rightarrow> bytes) \<Rightarrow> bytes list \<Rightarrow> bytes option list \<Rightarrow> error option
                        \<Rightarrow> error + unit" where
  "compare_pieces sha1 [] ys e = Inr ()"
| "compare_pieces sha1 (known_hash # hs) [] e =
     (case e of None \<Rightarrow> Inr () | Some x \<Rightarrow> Inl x)"
| "compare_pieces sha1 (known_hash # hs) (None # ys) e =
     Inl (VerificationError Unable_to_get_hash_for_piece)"
| "compare_pieces sha1 (known_hash # hs) (Some piece # ys) e =
     (if known_hash = sha1 piece then compare_pieces sha1 hs ys e
      else Inl (VerificationError Computed_hash_does_not_match))"

text \<open>
  The file names handed to the generator and the path they are joined to: the
  \<^verbatim>\<open>path\<close> segments of every entry under \<open>path\<close>, or, when the \<^verbatim>\<open>files\<close> key is
  missing, \<open>path\<close> itself under \<open>orig_path\<close>.
\<close>

definition file_listing :: "torrent \<Rightarrow> string \<Rightarrow> string list \<times> string" where
  "file_listing t orig_path =
     (let path = path_join orig_path (name t)
      in (case files t of
            Some fl \<Rightarrow> (map slash_join fl, path)
          | None \<Rightarrow> ([path], orig_path)))"

definition verify_torrent_contents :: "(bytes \<Rightarrow> bytes) \<Rightarrow> filesystem \<Rightarrow> torrent \<Rightarrow> string
                                        \<Rightarrow> error + unit" where
  "verify_torrent_contents sha1 fs t orig_path =
     (let path = path_join orig_path (name t);
          is_a_file = (open_rb (fs path) \<noteq> None)
      in if \<not> isdir (fs path) \<and> \<not> is_a_file then Inl IOError
         else
           (let piece_hashes = chunks (pieces t) digest_size;
                (filenames, base) = file_listing t orig_path;
                (ys, e) = get_torrent_pieces fs filenames base (piece_length t)
            in compare_pieces sha1 piece_hashes ys e))"

section \<open>Remote mirroring (xirvik/sftp.py)\<close>

subsection \<open>Remote entries and \<^verbatim>\<open>listdir_attr_recurse\<close>\<close>

text \<open>The fields of paramiko's \<^verbatim>\<open>SFTPAttributes\<close> that the client reads.\<close>

record attr =
  filename :: string
  st_mode :: nat
  st_size :: int
  st_atime :: int
  st_mtime :: int

text \<open>
  The remote side as a finite tree: an entry carries its attributes and what
  \<^verbatim>\<open>self.client.listdir_attr\<close> answers on its path, \<open>None\<close> when that call raises
  \<^verbatim>\<open>IOError\<close> (as it does on a regular file).
\<close>

datatype remote = Remote attr "remote list option"

text \<open>
  The generator run to its end: the pairs it yields and the exception that ended it.
  An \<^verbatim>\<open>IOError\<close> from below is raised again under \<open>raise_exceptions\<close> and dropped
  otherwise; the entries the sublisting yielded before it stay yielded.
\<close>

fun listdir_attr_recurse :: "bool \<Rightarrow> string \<Rightarrow> remote list option \<Rightarrow> (string \<times> attr) list \<times> error option"
  and list_entries :: "bool \<Rightarrow> string \<Rightarrow> remote list \<Rightarrow> (string \<times> attr) list \<times> error option" where
  "listdir_attr_recurse raise_exceptions path None = ([], Some IOError)"
| "listdir_attr_recurse raise_exceptions path (Some das) = list_entries raise_exceptions path das"
| "list_entries raise_exceptions path [] = ([], None)"
| "list_entries raise_exceptions path (Remote da sub # das) =
     (let is_dir = (st_mode da AND 448 = 448)
      in if is_dir
         then (case listdir_attr_recurse raise_exceptions (path_join path (filename da)) sub of
                 (xs, e) \<Rightarrow>
                   (if e \<noteq> None \<and> raise_exceptions then (xs, e)
                    else (case list_entries raise_exceptions path das of
                            (ys, e') \<Rightarrow> (xs @ ys, e'))))
         else (case list_entries raise_exceptions path das of
                 (ys, e') \<Rightarrow> ((path_join path (filename da), da) # ys, e')))"

subsection \<open>The directory cache\<close>

text \<open>
  \<^verbatim>\<open>_dircache = []\<close> is an attribute of the class: one list object that every instance
  reads through \<^verbatim>\<open>self._dircache\<close> and appends to in place, until
  \<^verbatim>\<open>clear_directory_cache\<close> binds a list of the instance's own. Instances are numbered.
\<close>

record store =
  class_dircache :: "string list"
  instance_dircache :: "nat \<Rightarrow> string list option"

definition new_store :: store where
  "new_store = \<lparr>class_dircache = [], instance_dircache = (\<lambda>i. None)\<rparr>"

definition dircache_of :: "store \<Rightarrow> nat \<Rightarrow> string list" where
  "dircache_of s self = (case instance_dircache s self of Some c \<Rightarrow> c | None \<Rightarrow> class_dircache s)"

definition dircache_append :: "store \<Rightarrow> nat \<Rightarrow> string \<Rightarrow> store" where
  "dircache_append s self x =
     (case instance_dircache s self of
        Some c \<Rightarrow> s\<lparr>instance_dircache := (instance_dircache s)(self \<mapsto> c @ [x])\<rparr>
      | None \<Rightarrow> s\<lparr>class_dircache := class_dircache s @ [x]\<rparr>)"

definition clear_directory_cache :: "store \<Rightarrow> nat \<Rightarrow> store" where
  "clear_directory_cache s self = s\<lparr>instance_dircache := (instance_dircache s)(self \<mapsto> [])\<rparr>"

subsection \<open>Paths\<close>

text \<open>\<^verbatim>\<open>os.path.basename\<close> and \<^verbatim>\<open>os.path.dirname\<close> of posixpath.\<close>

definition basename :: "string \<Rightarrow> string" where
  "basename p = rev (takeWhile (\<lambda>c. c \<noteq> CHR ''/'') (rev p))"

definition dirname :: "string \<Rightarrow> string" where
  "dirname p =
     (let head = rev (dropWhile (\<lambda>c. c \<noteq> CHR ''/'') (rev p))
      in if head \<noteq> [] \<and> head \<noteq> replicate (length head) (CHR ''/'')
         then rev (dropWhile (\<lambda>c. c = CHR ''/'') (rev head))
         else head)"

subsection \<open>Read windows of a resumed transfer\<close>

text \<open>
  \<^verbatim>\<open>for n in range(n_reads)\<close> with its \<open>offset\<close>: the tuples appended and the offset
  after the loop.
\<close>

fun tuples_loop :: "int \<Rightarrow> int \<Rightarrow> nat \<Rightarrow> int \<Rightarrow> (int \<times> int) list \<times> int" where
  "tuples_loop max_packet_size resume_seek 0 offset = ([], offset)"
| "tuples_loop max_packet_size resume_seek (Suc k) offset =
     (case tuples_loop max_packet_size resume_seek k (offset + max_packet_size) of
        (ts, off) \<Rightarrow> ((resume_seek + offset, max_packet_size) # ts, off))"

text \<open>
  \<^verbatim>\<open>ceil((info.st_size - resume_seek) / self.MAX_PACKET_SIZE) - 1\<close>, the quotient taken
  exactly (Python 3 division, and sizes small enough for the float to be exact), and
  \<^verbatim>\<open>(info.st_size - resume_seek) % self.MAX_PACKET_SIZE\<close>. \<^verbatim>\<open>MAX_PACKET_SIZE\<close> is
  paramiko's \<^verbatim>\<open>MAX_REQUEST_SIZE\<close>, a parameter here.
\<close>

definition n_reads :: "int \<Rightarrow> int \<Rightarrow> int \<Rightarrow> int" where
  "n_reads max_packet_size remote_size resume_seek =
     - ((- (remote_size - resume_seek)) div max_packet_size) - 1"

definition n_left :: "int \<Rightarrow> int \<Rightarrow> int \<Rightarrow> int" where
  "n_left max_packet_size remote_size resume_seek = (remote_size - resume_seek) mod max_packet_size"

definition read_tuples :: "int \<Rightarrow> int \<Rightarrow> int \<Rightarrow> (int \<times> int) list" where
  "read_tuples max_packet_size remote_size resume_seek =
     (case tuples_loop max_packet_size resume_seek
             (nat (n_reads max_packet_size remote_size resume_seek)) 0 of
        (ts, offset) \<Rightarrow>
          ts @ [(resume_seek + offset, n_left max_packet_size remote_size resume_seek)])"

text \<open>
  \<^verbatim>\<open>rf.readv(read_tuples)\<close> on the remote file's contents: one chunk for each
  (offset, length), short where the file ends.
\<close>

definition readv :: "bytes \<Rightarrow> (int \<times> int) list \<Rightarrow> bytes list" where
  "readv content ts = map (\<lambda>(off, len). take (nat len) (drop (nat off) content)) ts"

subsection \<open>\<^verbatim>\<open>mirror\<close>\<close>

text \<open>What a run does to the outside, in the order it does it.\<close>

datatype action =
    Makedirs string
  | Get string string
  | Readv string string "(int \<times> int) list"

text \<open>
  The variables of \<^verbatim>\<open>mirror\<close> that live across files (\<open>n\<close> and \<open>resume_seek\<close>), the
  directory caches, the local file system and the actions so far.
\<close>

record mirror_vars =
  var_n :: int
  var_resume_seek :: "int option"
  var_store :: store
  var_local :: filesystem
  var_actions :: "action list"

text \<open>
  The two branches of the \<^verbatim>\<open>while True\<close> body, for a transport that raises neither
  \<^verbatim>\<open>socket.timeout\<close> nor \<^verbatim>\<open>SFTPError\<close>, so that the body runs once and ends in
  \<^verbatim>\<open>n += 1\<close>. In the resuming branch \<^verbatim>\<open>for n in range(n_reads)\<close> assigns the
  function's \<open>n\<close>, and the chunks are appended to the destination. In the other branch
  \<^verbatim>\<open>self.client.get\<close> writes the whole file; \<^verbatim>\<open>realpath\<close> is taken as the identity.
  Opening the destination for writing is taken to succeed: the \<^verbatim>\<open>IOError\<close> that \<^verbatim>\<open>get\<close>
  and \<^verbatim>\<open>open(dest, 'ab')\<close> raise where the directory of \<open>dest\<close> does not exist, which
  ends the run, is left out.
\<close>

definition resume_transfer :: "int \<Rightarrow> (string \<Rightarrow> bytes) \<Rightarrow> string \<Rightarrow> attr \<Rightarrow> string \<Rightarrow> int
                                \<Rightarrow> mirror_vars \<Rightarrow> mirror_vars" where
  "resume_transfer max_packet_size remote_file rpath info dest resume_seek v =
     (let reads = n_reads max_packet_size (st_size info) resume_seek;
          ts = read_tuples max_packet_size (st_size info) resume_seek;
          n1 = (if 0 < reads then reads - 1 else var_n v);
          written = concat (readv (remote_file rpath) ts)
      in v\<lparr>var_n := n1 + 1,
           var_resume_seek := None,
           var_local := (var_local v)
              (dest := File ((case var_local v dest of File c \<Rightarrow> c | _ \<Rightarrow> []) @ written)),
           var_actions := var_actions v @ [Readv rpath dest ts]\<rparr>)"

definition fresh_transfer :: "(string \<Rightarrow> bytes) \<Rightarrow> string \<Rightarrow> string \<Rightarrow> mirror_vars \<Rightarrow> mirror_vars" where
  "fresh_transfer remote_file rpath dest v =
     v\<lparr>var_n := var_n v + 1,
       var_local := (var_local v)(dest := File (remote_file rpath)),
       var_actions := var_actions v @ [Get rpath dest]\<rparr>"

text \<open>\<^verbatim>\<open>if resume_seek and resume\<close>: \<open>None\<close> and 0 are both false.\<close>

definition transfer :: "int \<Rightarrow> (string \<Rightarrow> bytes) \<Rightarrow> bool \<Rightarrow> string \<Rightarrow> attr \<Rightarrow> string
                         \<Rightarrow> mirror_vars \<Rightarrow> mirror_vars" where
  "transfer max_packet_size remote_file resume rpath info dest v =
     (case var_resume_seek v of
        None \<Rightarrow> fresh_transfer remote_file rpath dest v
      | Some resume_seek \<Rightarrow>
          (if resume_seek \<noteq> 0 \<and> resume
           then resume_transfer max_packet_size remote_file rpath info dest resume_seek v
           else fresh_transfer remote_file rpath dest v))"

text \<open>
  One pass of \<^verbatim>\<open>for _path, info in self.listdir_attr_recurse(path=path)\<close>, up to the
  last \<^verbatim>\<open>try\<close> (\<^verbatim>\<open>chmod\<close> and \<^verbatim>\<open>utime\<close>, which change none of the variables here).
  \<^verbatim>\<open>makedirs\<close> creates the directory where nothing is; its \<^verbatim>\<open>OSError\<close> is dropped.
\<close>

definition mirror_entry :: "int \<Rightarrow> (string \<Rightarrow> bytes) \<Rightarrow> nat \<Rightarrow> string \<Rightarrow> bool
                             \<Rightarrow> mirror_vars \<Rightarrow> string \<times> attr \<Rightarrow> mirror_vars" where
  "mirror_entry max_packet_size remote_file self destroot resume v entry =
     (case entry of (rpath, info) \<Rightarrow>
        (if st_mode info AND 448 = 448 then v
         else
           (let dest_path = path_join destroot (dirname rpath);
                dest = path_join dest_path (basename rpath);
                v1 = (if dest_path \<in> set (dircache_of (var_store v) self) then v
                      else v\<lparr>var_store := dircache_append (var_store v) self dest_path,
                             var_local := (if var_local v dest_path = Absent
                                           then (var_local v)(dest_path := Dir 4096)
                                           else var_local v),
                             var_actions := var_actions v @ [Makedirs dest_path]\<rparr>)
            in if isdir (var_local v1 dest) then v1
               else (case open_rb (var_local v1 dest) of
                       None \<Rightarrow> transfer max_packet_size remote_file resume rpath info dest v1
                     | Some c \<Rightarrow>
                         (let current_size = int (length c)
                          in if current_size \<noteq> st_size info
                             then transfer max_packet_size remote_file resume rpath info dest
                                    (v1\<lparr>var_resume_seek := Some current_size\<rparr>)
                             else v1)))))"

text \<open>
  A run of \<^verbatim>\<open>mirror\<close> on the instance \<open>self\<close>: \<open>n = 0\<close>, \<open>resume_seek = None\<close>, then
  the loop over what the lister yields. The result is the returned \<open>n\<close>, or the lister's
  exception, with the store, the local files and the actions the run leaves behind.
\<close>

definition mirror :: "int \<Rightarrow> (string \<Rightarrow> bytes) \<Rightarrow> bool \<Rightarrow> remote list option \<Rightarrow> nat
                       \<Rightarrow> store \<Rightarrow> filesystem \<Rightarrow> string \<Rightarrow> string \<Rightarrow> bool
                       \<Rightarrow> (error + int) \<times> mirror_vars" where
  "mirror max_packet_size remote_file raise_exceptions root self s local path destroot resume =
     (case listdir_attr_recurse raise_exceptions path root of
        (entries, e) \<Rightarrow>
          (let v = foldl (mirror_entry max_packet_size remote_file self destroot resume)
                     \<lparr>var_n = 0, var_resume_seek = None, var_store = s,
                      var_local = local, var_actions = []\<rparr> entries
           in ((case e of None \<Rightarrow> Inr (var_n v) | Some x \<Rightarrow> Inl x), v)))"

section \<open>Specification functions\<close>

text \<open>
  The pieces of a byte string that are complete, and the bytes after them: together
  they are what \<open>chunks\<close> returns.
\<close>

function whole_pieces :: "'a list \<Rightarrow> nat \<Rightarrow> 'a list list" where
  "whole_pieces l n = (if n = 0 \<or> length l < n then [] else take n l # whole_pieces (drop n l) n)"
  by pat_completeness auto
termination
  by (relation "measure (\<lambda>(l, n). length l)") auto

function leftover :: "'a list \<Rightarrow> nat \<Rightarrow> 'a list" where
  "leftover l n = (if n = 0 \<or> length l < n then l else leftover (drop n l) n)"
  by pat_completeness auto
termination
  by (relation "measure (\<lambda>(l, n). length l)") auto

declare whole_pieces.simps [simp del] leftover.simps [simp del]


text \<open>The contents of a readable regular file.\<close>

fun file_bytes :: "node \<Rightarrow> bytes" where
  "file_bytes (File c) = c"
| "file_bytes _ = []"

fun readable :: "node \<Rightarrow> bool" where
  "readable (File c) = True"
| "readable _ = False"


text \<open>
  A stand-in for SHA-1 where an example is evaluated: the piece, cut or filled with
  zeros to the 20 bytes of a digest.
\<close>

definition example_digest :: "bytes \<Rightarrow> bytes" where
  "example_digest piece = take 20 (piece @ replicate 20 0)"

definition contents :: "filesystem \<Rightarrow> string \<Rightarrow> string list \<Rightarrow> bytes" where
  "contents fs basepath filenames =
     concat (map (\<lambda>f. file_bytes (fs (path_join basepath f))) filenames)"

text \<open>
  The pieces that are complete once the files \<open>pre\<close> have been read, with the last,
  shorter piece when no file is listed after them.
\<close>

definition pieces_before :: "filesystem \<Rightarrow> string \<Rightarrow> nat \<Rightarrow> string list \<Rightarrow> string list
                              \<Rightarrow> bytes list" where
  "pieces_before fs basepath n pre post =
     (if post = [] then chunks (contents fs basepath pre) n
      else whole_pieces (contents fs basepath pre) n)"

text \<open>The directories a run tried to create, in order.\<close>

fun makedirs_of :: "action list \<Rightarrow> string list" where
  "makedirs_of [] = []"
| "makedirs_of (Makedirs d # as) = d # makedirs_of as"
| "makedirs_of (a # as) = makedirs_of as"


text \<open>The transfers of a run, in order.\<close>

fun transfers_of :: "action list \<Rightarrow> action list" where
  "transfers_of [] = []"
| "transfers_of (Makedirs d # as) = transfers_of as"
| "transfers_of (a # as) = a # transfers_of as"

text \<open>
  What holds of the cache of \<open>self\<close> between two files of a run that started with
  the cache \<open>c0\<close>.
\<close>

definition cache_inv :: "string list \<Rightarrow> nat \<Rightarrow> mirror_vars \<Rightarrow> bool" where
  "cache_inv c0 self v \<longleftrightarrow>
     dircache_of (var_store v) self = c0 @ makedirs_of (var_actions v)
     \<and> distinct (makedirs_of (var_actions v))
     \<and> set (makedirs_of (var_actions v)) \<inter> set c0 = {}"


section \<open>The piece streamer\<close>

lemma whole_short: "length l < n \<Longrightarrow> whole_pieces l n = []"
  by (simp add: whole_pieces.simps)

lemma leftover_short: "length l < n \<Longrightarrow> leftover l n = l"
  by (simp add: leftover.simps)

lemma whole_block: "0 < n \<Longrightarrow> length xs = n \<Longrightarrow> whole_pieces (xs @ ys) n = xs # whole_pieces ys n"
  by (subst whole_pieces.simps) simp

lemma leftover_block: "0 < n \<Longrightarrow> length xs = n \<Longrightarrow> leftover (xs @ ys) n = leftover ys n"
  by (subst leftover.simps) simp

lemma leftover_less: "0 < n \<Longrightarrow> length (leftover l n) < n"
  by (induction l n rule: leftover.induct) (subst leftover.simps, simp)

lemma whole_append:
  "0 < n \<Longrightarrow> whole_pieces (xs @ ys) n = whole_pieces xs n @ whole_pieces (leftover xs n @ ys) n"
proof (induction xs n rule: whole_pieces.induct)
  case (1 l n)
  show ?case
  proof (cases "length l < n")
    case True
    then show ?thesis by (simp add: whole_short leftover_short)
  next
    case False
    with 1 have ih: "whole_pieces (drop n l @ ys) n =
        whole_pieces (drop n l) n @ whole_pieces (leftover (drop n l) n @ ys) n" by simp
    have l: "l = take n l @ drop n l" by simp
    have len: "length (take n l) = n" using False by simp
    have a: "whole_pieces (l @ ys) n = take n l # whole_pieces (drop n l @ ys) n"
      using whole_block [OF "1.prems" len, of "drop n l @ ys"]
      by (metis append.assoc append_take_drop_id)
    have b: "whole_pieces l n = take n l # whole_pieces (drop n l) n"
      using whole_block [OF "1.prems" len, of "drop n l"] by simp
    have c: "leftover l n = leftover (drop n l) n"
      using leftover_block [OF "1.prems" len, of "drop n l"] by simp
    show ?thesis by (simp add: a b c ih)
  qed
qed

lemma leftover_append:
  "0 < n \<Longrightarrow> leftover (xs @ ys) n = leftover (leftover xs n @ ys) n"
proof (induction xs n rule: leftover.induct)
  case (1 l n)
  show ?case
  proof (cases "length l < n")
    case True
    then show ?thesis by (simp add: leftover_short)
  next
    case False
    with 1 have ih: "leftover (drop n l @ ys) n = leftover (leftover (drop n l) n @ ys) n" by simp
    have len: "length (take n l) = n" using False by simp
    have a: "leftover (l @ ys) n = leftover (drop n l @ ys) n"
      using leftover_block [OF "1.prems" len, of "drop n l @ ys"]
      by (metis append.assoc append_take_drop_id)
    have c: "leftover l n = leftover (drop n l) n"
      using leftover_block [OF "1.prems" len, of "drop n l"] by simp
    show ?thesis by (simp add: a c ih)
  qed
qed

lemma chunks_whole_leftover:
  "0 < n \<Longrightarrow> chunks l n = whole_pieces l n @ (if leftover l n = [] then [] else [leftover l n])"
proof (induction l n rule: chunks.induct)
  case (1 l n)
  show ?case
  proof (cases "length l < n")
    case True
    then show ?thesis
      using "1.prems" by (cases "l = []") (simp_all add: chunks.simps [of l] chunks.simps [of "[]"] whole_short leftover_short)
  next
    case False
    then have ne: "l \<noteq> []" using "1.prems" by auto
    have len: "length (take n l) = n" using False by simp
    have b: "whole_pieces l n = take n l # whole_pieces (drop n l) n"
      using whole_block [OF "1.prems" len, of "drop n l"] by simp
    have c: "leftover l n = leftover (drop n l) n"
      using leftover_block [OF "1.prems" len, of "drop n l"] by simp
    from 1 ne have ih: "chunks (drop n l) n = whole_pieces (drop n l) n @
        (if leftover (drop n l) n = [] then [] else [leftover (drop n l) n])" by simp
    show ?thesis using ne "1.prems" by (subst chunks.simps) (simp add: b c ih)
  qed
qed

lemma read_loop_whole:
  "0 < n \<Longrightarrow> length buf < n \<Longrightarrow> p_delta = int n - int (length buf) \<Longrightarrow>
   read_loop (int n) rest buf p_delta =
     (whole_pieces (buf @ rest) n, leftover (buf @ rest) n,
      int n - int (length (leftover (buf @ rest) n)))"
proof (induction "int n" rest buf p_delta rule: read_loop.induct)
  case (1 rest buf p_delta)
  let ?k = "nat p_delta"
  have k: "?k = n - length buf" "0 < ?k" using 1(4,5) by auto
  have rb: "read_bytes p_delta rest = take ?k rest" using 1(4,5) by (simp add: read_bytes_def)
  show ?case
  proof (cases "rest = []")
    case True
    then show ?thesis using 1(4,5) by (subst read_loop.simps) (simp add: read_bytes_def whole_short leftover_short)
  next
    case ne: False
    show ?thesis
    proof (cases "length rest < ?k")
      case True
      then have t: "take ?k rest = rest" by simp
      have short: "length (buf @ rest) < n" using True k by simp
      have pos: "int (length rest) < p_delta" "\<not> p_delta - int (length rest) \<le> 0"
        using True by auto
      have ih: "read_loop (int n) [] (buf @ rest) (p_delta - int (length rest)) =
                 ([], buf @ rest, p_delta - int (length rest))"
        by (subst read_loop.simps) (simp add: read_bytes_def)
      have rl: "read_loop (int n) rest buf p_delta = ([], buf @ rest, p_delta - int (length rest))"
        using ne pos ih by (subst read_loop.simps) (simp add: rb t Let_def)
      have fin: "p_delta - int (length rest) = int n - int (length (buf @ rest))"
        using "1.prems"(3) by simp
      show ?thesis unfolding rl fin using short by (simp add: whole_short leftover_short)
    next
      case False
      then have len: "length (take ?k rest) = ?k" by simp
      have blk: "length (buf @ take ?k rest) = n" using len k by simp
      have tne: "take ?k rest \<noteq> []" using ne k by (cases rest) auto
      have pd1: "p_delta - int (length (take ?k rest)) = 0" using len 1(5) k by simp
      have ih: "read_loop (int n) (drop ?k rest) [] (int n) =
                 (whole_pieces ([] @ drop ?k rest) n, leftover ([] @ drop ?k rest) n,
                   int n - int (length (leftover ([] @ drop ?k rest) n)))"
        using "1.hyps"(1) [OF rb [symmetric] refl tne refl refl _ _ "1.prems"(1)] pd1 len "1.prems"(1) 
        by simp
      have split: "buf @ rest = (buf @ take ?k rest) @ drop ?k rest" by simp
      have w: "whole_pieces (buf @ rest) n = (buf @ take ?k rest) # whole_pieces (drop ?k rest) n"
        by (subst split) (rule whole_block [OF "1.prems"(1) blk])
      have l: "leftover (buf @ rest) n = leftover (drop ?k rest) n"
        by (subst split) (rule leftover_block [OF "1.prems"(1) blk])
      show ?thesis using tne pd1 len ih
        by (subst read_loop.simps) (simp add: rb Let_def w l)
    qed
  qed
qed

lemma file_step_readable:
  assumes n: "0 < n" and b: "length buf < n" and pd: "p_delta = int n - int (length buf)"
  shows "file_step (int n) (File c) (buf, p_delta, sz) =
           (map Some (whole_pieces (buf @ c) n),
            Inr (leftover (buf @ c) n, int n - int (length (leftover (buf @ c) n)), Some (length c)))"
proof (cases "int (length c) \<le> int n \<and> p_delta > int (length c)")
  case True
  then have short: "length (buf @ c) < n" using pd by simp
  show ?thesis using True pd short
    by (simp add: file_step.simps Let_def whole_short leftover_short)
next
  case False
  then have "\<not> (int (length c) \<le> int n \<and> int (length c) < p_delta)" by simp
  then show ?thesis
    by (simp only: file_step.simps stat_size.simps open_rb.simps Let_def
          read_loop_whole [OF n b pd] option.case prod.case if_False append_Nil)
qed

lemma chunks_append_whole:
  assumes n: "0 < n"
  shows "chunks (xs @ ys) n = whole_pieces xs n @ chunks (leftover xs n @ ys) n"
  by (simp add: chunks_whole_leftover [OF n] whole_append [OF n, of xs ys]
        leftover_append [OF n, of xs ys])

lemma contents_Nil: "contents fs basepath [] = []"
  by (simp add: contents_def)

lemma contents_Cons:
  "contents fs basepath (f # fl) = file_bytes (fs (path_join basepath f)) @ contents fs basepath fl"
  by (simp add: contents_def)

lemma pieces_from_readable:
  assumes n: "0 < n"
  shows "\<forall>name \<in> set names. readable (fs (path_join basepath name)) \<Longrightarrow>
         length buf < n \<Longrightarrow>
         pieces_from fs basepath (int n) names (buf, int n - int (length buf), sz) =
           (map Some (chunks (buf @ contents fs basepath names) n),
            None)"
proof (induction names arbitrary: buf sz)
  case Nil
  then show ?case using n
    by (simp add: contents_Nil chunks_whole_leftover whole_short leftover_short)
next
  case (Cons name names)
  let ?c = "file_bytes (fs (path_join basepath name))"
  from Cons.prems(1) have f: "fs (path_join basepath name) = File ?c"
    by (cases "fs (path_join basepath name)") simp_all
  have step: "file_step (int n) (fs (path_join basepath name)) (buf, int n - int (length buf), sz) =
           (map Some (whole_pieces (buf @ ?c) n),
            Inr (leftover (buf @ ?c) n, int n - int (length (leftover (buf @ ?c) n)), Some (length ?c)))"
    by (subst f) (rule file_step_readable [OF n Cons.prems(2) refl])
  have ih: "pieces_from fs basepath (int n) names
              (leftover (buf @ ?c) n, int n - int (length (leftover (buf @ ?c) n)), Some (length ?c)) =
            (map Some (chunks (leftover (buf @ ?c) n @ contents fs basepath names) n), None)"
    using Cons.prems(1) by (intro Cons.IH leftover_less [OF n]) simp
  have "chunks ((buf @ ?c) @ contents fs basepath names) n =
        whole_pieces (buf @ ?c) n @ chunks (leftover (buf @ ?c) n @ contents fs basepath names) n"
    by (rule chunks_append_whole [OF n])
  then show ?case by (simp add: step ih contents_Cons)
qed

lemma concat_chunks: "0 < n \<Longrightarrow> concat (chunks l n) = l"
  by (induction l n rule: chunks.induct) (subst chunks.simps, simp)

lemma chunks_bounds: "x \<in> set (chunks l n) \<Longrightarrow> x \<noteq> [] \<and> length x \<le> n"
proof (induction l n rule: chunks.induct)
  case (1 l n)
  show ?case
  proof (cases "n = 0 \<or> l = []")
    case True
    with 1(2) show ?thesis by (simp add: chunks.simps [of l])
  next
    case False
    with 1(2) have "x = take n l \<or> x \<in> set (chunks (drop n l) n)"
      by (simp add: chunks.simps [of l])
    then show ?thesis using False 1(1) by auto
  qed
qed

lemma chunks_full: "Suc i < length (chunks l n) \<Longrightarrow> length (chunks l n ! i) = n"
proof (induction l n arbitrary: i rule: chunks.induct)
  case (1 l n)
  show ?case
  proof (cases "n = 0 \<or> l = []")
    case True
    with 1(2) show ?thesis by (simp add: chunks.simps [of l])
  next
    case False
    then have c: "chunks l n = take n l # chunks (drop n l) n" by (simp add: chunks.simps [of l])
    show ?thesis
    proof (cases i)
      case 0
      with 1(2) c have "chunks (drop n l) n \<noteq> []" by auto
      then have "drop n l \<noteq> []" by (auto simp: chunks.simps [of "[]"])
      then show ?thesis using 0 c by simp
    next
      case (Suc j)
      with 1(2) c have "Suc j < length (chunks (drop n l) n)" by simp
      then show ?thesis using 1(1) [OF False] Suc c by simp
    qed
  qed
qed


lemma get_torrent_pieces_readable:
  assumes "0 < pl"
    and "\<forall>f \<in> set filenames. readable (fs (path_join basepath f))"
  shows "get_torrent_pieces fs filenames basepath pl =
           (map Some (chunks (contents fs basepath filenames) (nat pl)), None)"
proof -
  have n: "0 < nat pl" using assms(1) by simp
  show ?thesis
    using pieces_from_readable [OF n assms(2), of "[]" None] assms(1)
    by (simp add: get_torrent_pieces_def)
qed

text \<open>
  C4. When every listed file is a readable regular file and the piece length is
  positive, the generator ends normally and yields no placeholder; what it yields is the
  concatenation of the files in listed order cut at every \<open>piece_length\<close> bytes: the
  buffers concatenate to that content, every buffer but the last has exactly
  \<open>piece_length\<close> bytes, and no buffer is empty or longer than \<open>piece_length\<close>, so the
  bytes after the last full piece are yielded as a last, shorter buffer.
\<close>

theorem get_torrent_pieces_partition:
  assumes "0 < pl"
    and "\<forall>f \<in> set filenames. readable (fs (path_join basepath f))"
  shows "get_torrent_pieces fs filenames basepath pl =
           (map Some (chunks (contents fs basepath filenames) (nat pl)), None)
         \<and> concat (chunks (contents fs basepath filenames) (nat pl)) = contents fs basepath filenames
         \<and> (\<forall>i. Suc i < length (chunks (contents fs basepath filenames) (nat pl)) \<longrightarrow>
                length (chunks (contents fs basepath filenames) (nat pl) ! i) = nat pl)
         \<and> (\<forall>q \<in> set (chunks (contents fs basepath filenames) (nat pl)).
                q \<noteq> [] \<and> length q \<le> nat pl)"
proof -
  have n: "0 < nat pl" using assms(1) by simp
  have "get_torrent_pieces fs filenames basepath pl =
           (map Some (chunks (contents fs basepath filenames) (nat pl)), None)"
    by (rule get_torrent_pieces_readable [OF assms])
  moreover have "concat (chunks (contents fs basepath filenames) (nat pl)) = contents fs basepath filenames"
    by (rule concat_chunks [OF n])
  ultimately show ?thesis
    using chunks_full chunks_bounds by blast
qed

text \<open>
  Two files of three and four bytes under \<open>d\<close>, pieces of two bytes: the second piece
  spans both files and the seventh byte is the last piece.
\<close>

theorem get_torrent_pieces_partition_witness:
  "0 < (2::int)
   \<and> readable (((\<lambda>p. Absent)(''d/a'' := File [1, 2, 3], ''d/b'' := File [4, 5, 6, 7])) (path_join ''d'' ''a''))
   \<and> readable (((\<lambda>p. Absent)(''d/a'' := File [1, 2, 3], ''d/b'' := File [4, 5, 6, 7])) (path_join ''d'' ''b''))
   \<and> get_torrent_pieces ((\<lambda>p. Absent)(''d/a'' := File [1, 2, 3], ''d/b'' := File [4, 5, 6, 7]))
        [''a'', ''b''] ''d'' 2 =
      ([Some [1, 2], Some [3, 4], Some [5, 6], Some [7]], None)"
proof -
  let ?fs = "(\<lambda>p. Absent)(''d/a'' := File [1, 2, 3], ''d/b'' := File [4, 5, 6, 7])"
  have h1: "0 < (2::int)" by simp
  have h2: "\<forall>f \<in> set [''a'', ''b'']. readable (?fs (path_join ''d'' f))"
    by (simp add: path_join_def)
  have c: "contents ?fs ''d'' [''a'', ''b''] = [1, 2, 3, 4, 5, 6, 7]"
    by (simp add: contents_def path_join_def)
  have k: "chunks [1, 2, 3, 4, 5, 6, 7 :: byte] 2 = [[1, 2], [3, 4], [5, 6], [7]]"
    by (simp add: chunks.simps)
  have n2: "nat (2::int) = 2" by simp
  have t: "get_torrent_pieces ?fs [''a'', ''b''] ''d'' 2 =
             (map Some (chunks (contents ?fs ''d'' [''a'', ''b'']) (nat 2)), None)"
    using get_torrent_pieces_partition [OF h1 h2] by blast
  have "get_torrent_pieces ?fs [''a'', ''b''] ''d'' 2 =
          ([Some [1, 2], Some [3, 4], Some [5, 6], Some [7]], None)"
    unfolding t c n2 k by simp
  moreover have "readable (?fs (path_join ''d'' ''a''))" "readable (?fs (path_join ''d'' ''b''))"
    by (simp_all add: path_join_def)
  ultimately show ?thesis using h1 by blast
qed

section \<open>Verification\<close>

lemma pieces_from_prefix:
  assumes n: "0 < n"
  shows "\<forall>f \<in> set pre. readable (fs (path_join basepath f)) \<Longrightarrow> length buf < n \<Longrightarrow>
    \<exists>sz'. pieces_from fs basepath (int n) (pre @ rest) (buf, int n - int (length buf), sz) =
      (map Some (whole_pieces (buf @ contents fs basepath pre) n) @
         fst (pieces_from fs basepath (int n) rest
                (leftover (buf @ contents fs basepath pre) n,
                 int n - int (length (leftover (buf @ contents fs basepath pre) n)), sz')),
       snd (pieces_from fs basepath (int n) rest
                (leftover (buf @ contents fs basepath pre) n,
                 int n - int (length (leftover (buf @ contents fs basepath pre) n)), sz')))"
proof (induction pre arbitrary: buf sz)
  case Nil
  then show ?case
    by (auto simp: contents_Nil whole_short leftover_short intro!: exI [of _ sz])
next
  case (Cons f pre)
  let ?c = "file_bytes (fs (path_join basepath f))"
  let ?b = "leftover (buf @ ?c) n"
  from Cons.prems(1) have f: "fs (path_join basepath f) = File ?c"
    by (cases "fs (path_join basepath f)") simp_all
  have step: "file_step (int n) (fs (path_join basepath f)) (buf, int n - int (length buf), sz) =
           (map Some (whole_pieces (buf @ ?c) n),
            Inr (?b, int n - int (length ?b), Some (length ?c)))"
    by (subst f) (rule file_step_readable [OF n Cons.prems(2) refl])
  have "\<forall>f \<in> set pre. readable (fs (path_join basepath f))" using Cons.prems(1) by simp
  from Cons.IH [OF this leftover_less [OF n], of "buf @ ?c" "Some (length ?c)"]
  obtain sz' where ih: "pieces_from fs basepath (int n) (pre @ rest)
       (?b, int n - int (length ?b), Some (length ?c)) =
      (map Some (whole_pieces (?b @ contents fs basepath pre) n) @
         fst (pieces_from fs basepath (int n) rest
                (leftover (?b @ contents fs basepath pre) n,
                 int n - int (length (leftover (?b @ contents fs basepath pre) n)), sz')),
       snd (pieces_from fs basepath (int n) rest
                (leftover (?b @ contents fs basepath pre) n,
                 int n - int (length (leftover (?b @ contents fs basepath pre) n)), sz')))"
    by blast
  have w: "whole_pieces ((buf @ ?c) @ contents fs basepath pre) n =
           whole_pieces (buf @ ?c) n @ whole_pieces (?b @ contents fs basepath pre) n"
    by (rule whole_append [OF n])
  have l: "leftover ((buf @ ?c) @ contents fs basepath pre) n = leftover (?b @ contents fs basepath pre) n"
    by (rule leftover_append [OF n])
  show ?case
    by (rule exI [of _ sz']) (simp add: step ih contents_Cons w [simplified] l [simplified])
qed

lemma pieces_from_unreadable:
  assumes "\<not> readable (fs (path_join basepath bad))"
  shows "(\<exists>ys. fst (pieces_from fs basepath pl (bad # post) st) = None # ys)
       \<or> (stat_size (fs (path_join basepath bad)) \<noteq> None
          \<and> pieces_from fs basepath pl (bad # post) st = ([], Some IOError))"
proof -
  obtain buf p_delta sz where st: "st = (buf, p_delta, sz)" by (cases st)
  show ?thesis using assms unfolding st
    by (cases "fs (path_join basepath bad)"; cases sz)
       (auto simp: file_step.simps Let_def split: prod.splits)
qed

lemma compare_pieces_prefix:
  "length ps < length hs \<Longrightarrow> take (length ps) hs = map sha1 ps \<Longrightarrow>
   compare_pieces sha1 hs (map Some ps @ ys) e = compare_pieces sha1 (drop (length ps) hs) ys e"
proof (induction ps arbitrary: hs)
  case Nil
  then show ?case by simp
next
  case (Cons p ps)
  then obtain h hs' where hs: "hs = h # hs'" by (cases hs) auto
  with Cons show ?case by simp
qed

lemma compare_pieces_mismatch:
  "i < length ps \<Longrightarrow> i < length hs \<Longrightarrow> hs ! i \<noteq> sha1 (ps ! i) \<Longrightarrow>
   \<forall>j<i. hs ! j = sha1 (ps ! j) \<Longrightarrow>
   compare_pieces sha1 hs (map Some ps @ ys) e = Inl (VerificationError Computed_hash_does_not_match)"
proof (induction i arbitrary: ps hs)
  case 0
  then obtain p ps' h hs' where "ps = p # ps'" "hs = h # hs'"
    by (cases ps; cases hs) auto
  with 0 show ?case by simp
next
  case (Suc i)
  then obtain p ps' h hs' where c: "ps = p # ps'" "hs = h # hs'"
    by (cases ps; cases hs) auto
  have h0: "h = sha1 p" using Suc.prems(4) c by auto
  have "\<forall>j<i. hs' ! j = sha1 (ps' ! j)" using Suc.prems(4) c by auto
  then have "compare_pieces sha1 hs' (map Some ps' @ ys) e =
             Inl (VerificationError Computed_hash_does_not_match)"
    using Suc.IH [of ps' hs'] Suc.prems(1,2,3) c by simp
  then show ?case using c h0 by simp
qed

lemmas ev = verify_torrent_contents_def file_listing_def get_torrent_pieces_def path_join_def file_step.simps
  read_loop.simps read_bytes_def chunks.simps digest_size_def example_digest_def Let_def


subsection \<open>A listed file that is missing\<close>

text \<open>
  What the code does where a digest is left for the placeholder. There is no error that
  names the missing file: the generator yields a placeholder, and the comparison loop
  raises the \<^verbatim>\<open>VerificationError\<close> \<open>Unable to get hash for piece\<close> when it reaches
  it. So when a listed file cannot be sized or opened, the files listed before it are
  readable, the complete pieces before it match their digests and a digest is left for
  the next piece, verification fails with that error, or with the \<^verbatim>\<open>IOError\<close> of
  \<^verbatim>\<open>open\<close> that the short-file branch lets through when the file can be sized but not
  opened.
\<close>

theorem missing_file_fails:
  assumes l: "file_listing t orig_path = (pre @ bad # post, base)"
    and p: "isdir (fs (path_join orig_path (name t))) \<or> open_rb (fs (path_join orig_path (name t))) \<noteq> None"
    and r: "\<forall>f \<in> set pre. readable (fs (path_join base f))"
    and b: "\<not> readable (fs (path_join base bad))"
    and pl: "0 < piece_length t"
    and more: "length (whole_pieces (contents fs base pre) (nat (piece_length t)))
                 < length (chunks (pieces t) digest_size)"
    and match: "take (length (whole_pieces (contents fs base pre) (nat (piece_length t))))
                  (chunks (pieces t) digest_size) =
                map sha1 (whole_pieces (contents fs base pre) (nat (piece_length t)))"
  shows "verify_torrent_contents sha1 fs t orig_path = Inl (VerificationError Unable_to_get_hash_for_piece)
       \<or> (stat_size (fs (path_join base bad)) \<noteq> None
          \<and> verify_torrent_contents sha1 fs t orig_path = Inl IOError)"
proof -
  let ?n = "nat (piece_length t)"
  let ?W = "whole_pieces (contents fs base pre) ?n"
  let ?hs = "chunks (pieces t) digest_size"
  have n: "0 < ?n" using pl by simp
  from pieces_from_prefix [OF n r, of "[]" "bad # post" None]
  obtain st where g: "get_torrent_pieces fs (pre @ bad # post) base (piece_length t) =
      (map Some ?W @ fst (pieces_from fs base (piece_length t) (bad # post) st),
       snd (pieces_from fs base (piece_length t) (bad # post) st))"
    using pl n by (auto simp: get_torrent_pieces_def)
  obtain ys e where pf: "pieces_from fs base (piece_length t) (bad # post) st = (ys, e)"
    by (cases "pieces_from fs base (piece_length t) (bad # post) st")
  have v: "verify_torrent_contents sha1 fs t orig_path = compare_pieces sha1 (drop (length ?W) ?hs) ys e"
    using p l g pf compare_pieces_prefix [OF more match, of ys e]
    by (auto simp: verify_torrent_contents_def Let_def)
  obtain h hs' where d: "drop (length ?W) ?hs = h # hs'"
    using more by (cases "drop (length ?W) ?hs") auto
  from pieces_from_unreadable [where fs = fs and basepath = base and bad = bad
      and pl = "piece_length t" and post = post and st = st, OF b]
  show ?thesis
  proof
    assume "\<exists>zs. fst (pieces_from fs base (piece_length t) (bad # post) st) = None # zs"
    then obtain zs where "ys = None # zs" using pf by auto
    then show ?thesis using v d by simp
  next
    assume a: "stat_size (fs (path_join base bad)) \<noteq> None \<and>
           pieces_from fs base (piece_length t) (bad # post) st = ([], Some IOError)"
    then have "ys = []" "e = Some IOError" using pf by auto
    then show ?thesis using v d a by simp
  qed
qed


text \<open>
  Files \<open>a\<close>, \<open>b\<close>, \<open>c\<close> with pieces of two bytes and two digests; \<open>b\<close> is missing. The
  piece completed in \<open>a\<close> matches and the placeholder meets the second digest.
\<close>

theorem missing_file_fails_witness:
  "verify_torrent_contents example_digest
     ((\<lambda>p. Absent)(''/d/t'' := Dir 4096, ''/d/t/a'' := File [1, 2, 3], ''/d/t/c'' := File [4]))
     \<lparr>name = ''t'', piece_length = 2, pieces = example_digest [1, 2] @ example_digest [3, 4],
      files = Some [[''a''], [''b''], [''c'']]\<rparr> ''/d'' =
   Inl (VerificationError Unable_to_get_hash_for_piece)"
proof -
  let ?fs = "(\<lambda>p. Absent)(''/d/t'' := Dir 4096, ''/d/t/a'' := File [1, 2, 3], ''/d/t/c'' := File [4])"
  let ?t = "\<lparr>name = ''t'', piece_length = 2, pieces = example_digest [1, 2] @ example_digest [3, 4],
      files = Some [[''a''], [''b''], [''c'']]\<rparr>"
  have l: "file_listing ?t ''/d'' = ([''a''] @ ''b'' # [''c''], ''/d/t'')"
    by (simp add: file_listing_def path_join_def)
  have p: "isdir (?fs (path_join ''/d'' (name ?t))) \<or> open_rb (?fs (path_join ''/d'' (name ?t))) \<noteq> None"
    by (simp add: path_join_def)
  have r: "\<forall>f \<in> set [''a'']. readable (?fs (path_join ''/d/t'' f))"
    by (simp add: path_join_def)
  have b: "\<not> readable (?fs (path_join ''/d/t'' ''b''))"
    by (simp add: path_join_def)
  have pl: "0 < piece_length ?t" by simp
  have w: "whole_pieces (contents ?fs ''/d/t'' [''a'']) (nat (piece_length ?t)) = [[1, 2]]"
    by (simp add: contents_def path_join_def whole_pieces.simps)
  have h: "chunks (pieces ?t) digest_size = [example_digest [1, 2], example_digest [3, 4]]"
    by (simp add: chunks.simps digest_size_def example_digest_def)
  have more: "length (whole_pieces (contents ?fs ''/d/t'' [''a'']) (nat (piece_length ?t)))
                < length (chunks (pieces ?t) digest_size)"
    unfolding w h by simp
  have match: "take (length (whole_pieces (contents ?fs ''/d/t'' [''a'']) (nat (piece_length ?t))))
                  (chunks (pieces ?t) digest_size) =
                map example_digest (whole_pieces (contents ?fs ''/d/t'' [''a'']) (nat (piece_length ?t)))"
    unfolding w h by simp
  have s: "stat_size (?fs (path_join ''/d/t'' ''b'')) = None"
    by (simp add: path_join_def)
  from missing_file_fails [OF l p r b pl more match] show ?thesis
    unfolding s by simp
qed

text \<open>
  C1 where the digests end before the placeholder. File \<open>a\<close> fills one piece, the
  empty file \<open>b\<close> listed after it is missing, and there is one digest: \<^verbatim>\<open>zip\<close> stops
  before the generator looks for \<open>b\<close>, and verification succeeds. With three bytes in
  \<open>a\<close> and a second digest for the third, the same missing \<open>b\<close> is reported.
\<close>

theorem missing_file_verifies:
  "((\<lambda>p. Absent)(''/d/t'' := Dir 4096, ''/d/t/a'' := File [1, 2])) (path_join ''/d/t'' ''b'') = Absent
   \<and> verify_torrent_contents example_digest
       ((\<lambda>p. Absent)(''/d/t'' := Dir 4096, ''/d/t/a'' := File [1, 2]))
       \<lparr>name = ''t'', piece_length = 2, pieces = example_digest [1, 2],
        files = Some [[''a''], [''b'']]\<rparr> ''/d'' = Inr ()
   \<and> verify_torrent_contents example_digest
       ((\<lambda>p. Absent)(''/d/t'' := Dir 4096, ''/d/t/a'' := File [1, 2, 3]))
       \<lparr>name = ''t'', piece_length = 2, pieces = example_digest [1, 2] @ example_digest [3],
        files = Some [[''a''], [''b'']]\<rparr> ''/d'' =
      Inl (VerificationError Unable_to_get_hash_for_piece)"
  by (simp add: ev)

subsection \<open>The first piece that does not match\<close>

lemma get_torrent_pieces_before:
  assumes pl: "0 < pl"
    and r: "\<forall>f \<in> set pre. readable (fs (path_join basepath f))"
  shows "\<exists>ys e. get_torrent_pieces fs (pre @ post) basepath pl =
           (map Some (pieces_before fs basepath (nat pl) pre post) @ ys, e)"
proof (cases "post = []")
  case True
  then show ?thesis
    using get_torrent_pieces_readable [OF pl r] by (simp add: pieces_before_def)
next
  case False
  have n: "0 < nat pl" using pl by simp
  from pieces_from_prefix [OF n r, of "[]" post None]
  show ?thesis
    using False pl by (auto simp: get_torrent_pieces_def pieces_before_def)
qed

text \<open>
  C3 as the code has it. The error raised on a digest mismatch carries a message and no
  piece index. When the files \<open>pre\<close> at the head of the list are readable, piece \<open>i\<close>
  is complete once they are read and is the first piece whose digest differs from the
  stored one, verification fails with \<open>Computed hash does not match torrent file's hash\<close>.
  Nothing is assumed of what comes after piece \<open>i\<close>: the files \<open>post\<close> listed after
  \<open>pre\<close> may be missing or unreadable, and the later pieces and digests may be anything,
  since none of them is looked at.
\<close>

theorem first_mismatch_fails:
  assumes l: "file_listing t orig_path = (pre @ post, base)"
    and p: "isdir (fs (path_join orig_path (name t))) \<or> open_rb (fs (path_join orig_path (name t))) \<noteq> None"
    and r: "\<forall>f \<in> set pre. readable (fs (path_join base f))"
    and pl: "0 < piece_length t"
    and i1: "i < length (pieces_before fs base (nat (piece_length t)) pre post)"
    and i2: "i < length (chunks (pieces t) digest_size)"
    and bad: "chunks (pieces t) digest_size ! i \<noteq>
              sha1 (pieces_before fs base (nat (piece_length t)) pre post ! i)"
    and good: "\<forall>j<i. chunks (pieces t) digest_size ! j =
              sha1 (pieces_before fs base (nat (piece_length t)) pre post ! j)"
  shows "verify_torrent_contents sha1 fs t orig_path =
           Inl (VerificationError Computed_hash_does_not_match)"
proof -
  from get_torrent_pieces_before [OF pl r, of post]
  obtain ys e where g: "get_torrent_pieces fs (pre @ post) base (piece_length t) =
        (map Some (pieces_before fs base (nat (piece_length t)) pre post) @ ys, e)"
    by blast
  show ?thesis
    using p l g compare_pieces_mismatch [OF i1 i2 bad good, of ys e]
    by (auto simp: verify_torrent_contents_def Let_def)
qed

text \<open>
  File \<open>a\<close> of four bytes and a missing file \<open>b\<close>, pieces of two bytes, three digests
  for the content 1, 2, 3, 4, 5; the third byte on disk is 9, inside piece 1. The mismatch
  of piece 1 is raised, and \<open>b\<close> is never looked for.
\<close>

theorem first_mismatch_fails_witness:
  "((\<lambda>p. Absent)(''/d/t'' := Dir 4096, ''/d/t/a'' := File [1, 2, 9, 4])) (path_join ''/d/t'' ''b'') = Absent
   \<and> verify_torrent_contents example_digest
     ((\<lambda>p. Absent)(''/d/t'' := Dir 4096, ''/d/t/a'' := File [1, 2, 9, 4]))
     \<lparr>name = ''t'', piece_length = 2,
      pieces = example_digest [1, 2] @ example_digest [3, 4] @ example_digest [5],
      files = Some [[''a''], [''b'']]\<rparr> ''/d'' =
   Inl (VerificationError Computed_hash_does_not_match)"
proof -
  let ?fs = "(\<lambda>p. Absent)(''/d/t'' := Dir 4096, ''/d/t/a'' := File [1, 2, 9, 4])"
  let ?t = "\<lparr>name = ''t'', piece_length = 2,
      pieces = example_digest [1, 2] @ example_digest [3, 4] @ example_digest [5],
      files = Some [[''a''], [''b'']]\<rparr>"
  have l: "file_listing ?t ''/d'' = ([''a''] @ [''b''], ''/d/t'')"
    by (simp add: file_listing_def path_join_def)
  have p: "isdir (?fs (path_join ''/d'' (name ?t))) \<or> open_rb (?fs (path_join ''/d'' (name ?t))) \<noteq> None"
    by (simp add: path_join_def)
  have r: "\<forall>f \<in> set [''a'']. readable (?fs (path_join ''/d/t'' f))"
    by (simp add: path_join_def)
  have pl: "0 < piece_length ?t" by simp
  have c: "pieces_before ?fs ''/d/t'' (nat (piece_length ?t)) [''a''] [''b''] = [[1, 2], [9, 4]]"
    by (simp add: pieces_before_def contents_def path_join_def whole_pieces.simps)
  have h: "chunks (pieces ?t) digest_size =
             [example_digest [1, 2], example_digest [3, 4], example_digest [5]]"
    by (simp add: chunks.simps digest_size_def example_digest_def)
  have i1: "1 < length (pieces_before ?fs ''/d/t'' (nat (piece_length ?t)) [''a''] [''b''])"
    unfolding c by simp
  have i2: "1 < length (chunks (pieces ?t) digest_size)"
    unfolding h by simp
  have bad: "chunks (pieces ?t) digest_size ! 1 \<noteq>
              example_digest (pieces_before ?fs ''/d/t'' (nat (piece_length ?t)) [''a''] [''b''] ! 1)"
    unfolding c h by (simp add: example_digest_def)
  have good: "\<forall>j<1. chunks (pieces ?t) digest_size ! j =
              example_digest (pieces_before ?fs ''/d/t'' (nat (piece_length ?t)) [''a''] [''b''] ! j)"
    unfolding c h by simp
  have "verify_torrent_contents example_digest ?fs ?t ''/d'' =
          Inl (VerificationError Computed_hash_does_not_match)"
    by (rule first_mismatch_fails [OF l p r pl i1 i2 bad good])
  moreover have "?fs (path_join ''/d/t'' ''b'') = Absent"
    by (simp add: path_join_def)
  ultimately show ?thesis by blast
qed

text \<open>
  The claim as it is written fails twice. A wrong byte in piece 0 and a wrong byte in
  piece 1 end in the same error value, which therefore tells no index; and content that
  differs from the metadata by a third piece, for which no digest is stored, verifies.
\<close>

theorem mismatch_index_counterexample:
  "verify_torrent_contents example_digest
     ((\<lambda>p. Absent)(''/d/t'' := Dir 4096, ''/d/t/a'' := File [9, 2, 3, 4]))
     \<lparr>name = ''t'', piece_length = 2, pieces = example_digest [1, 2] @ example_digest [3, 4],
      files = Some [[''a'']]\<rparr> ''/d'' =
   verify_torrent_contents example_digest
     ((\<lambda>p. Absent)(''/d/t'' := Dir 4096, ''/d/t/a'' := File [1, 2, 9, 4]))
     \<lparr>name = ''t'', piece_length = 2, pieces = example_digest [1, 2] @ example_digest [3, 4],
      files = Some [[''a'']]\<rparr> ''/d''
   \<and> verify_torrent_contents example_digest
     ((\<lambda>p. Absent)(''/d/t'' := Dir 4096, ''/d/t/a'' := File [1, 2, 3, 4, 5, 6]))
     \<lparr>name = ''t'', piece_length = 2, pieces = example_digest [1, 2] @ example_digest [3, 4],
      files = Some [[''a'']]\<rparr> ''/d'' = Inr ()"
  by (simp add: ev)

subsection \<open>Counts of pieces and digests\<close>

text \<open>
  Whatever the two counts are, verification succeeds as soon as the digests and the
  pieces that \<^verbatim>\<open>zip\<close> pairs agree.
\<close>

lemma compare_pieces_pairs:
  "\<forall>x \<in> set (zip hs ps). fst x = sha1 (snd x) \<Longrightarrow>
   compare_pieces sha1 hs (map Some ps) None = Inr ()"
proof (induction hs arbitrary: ps)
  case Nil
  show ?case by simp
next
  case (Cons h hs)
  then show ?case by (cases ps) simp_all
qed

lemma verify_passes_on_matching_pairs:
  assumes l: "file_listing t orig_path = (filenames, base)"
    and p: "isdir (fs (path_join orig_path (name t))) \<or> open_rb (fs (path_join orig_path (name t))) \<noteq> None"
    and r: "\<forall>f \<in> set filenames. readable (fs (path_join base f))"
    and pl: "0 < piece_length t"
    and ok: "\<forall>x \<in> set (zip (chunks (pieces t) digest_size)
                          (chunks (contents fs base filenames) (nat (piece_length t)))).
               fst x = sha1 (snd x)"
  shows "verify_torrent_contents sha1 fs t orig_path = Inr ()"
  using p l get_torrent_pieces_readable [OF pl r] compare_pieces_pairs [OF ok]
  by (auto simp: verify_torrent_contents_def Let_def)

text \<open>
  C5 at two inputs. The metadata of a six-byte file holds three digests and the file on
  disk was cut to four bytes; the metadata of a four-byte file holds two digests and
  the file on disk has six bytes. The pairs compared match, the counts are never
  compared, and both verify.
\<close>

theorem count_mismatch_verifies:
  "verify_torrent_contents example_digest
     ((\<lambda>p. Absent)(''/d/t'' := Dir 4096, ''/d/t/a'' := File [1, 2, 3, 4]))
     \<lparr>name = ''t'', piece_length = 2,
      pieces = example_digest [1, 2] @ example_digest [3, 4] @ example_digest [5, 6],
      files = Some [[''a'']]\<rparr> ''/d'' = Inr ()
   \<and> verify_torrent_contents example_digest
     ((\<lambda>p. Absent)(''/d/t'' := Dir 4096, ''/d/t/a'' := File [1, 2, 3, 4, 5, 6]))
     \<lparr>name = ''t'', piece_length = 2,
      pieces = example_digest [1, 2] @ example_digest [3, 4],
      files = Some [[''a'']]\<rparr> ''/d'' = Inr ()"
  by (simp add: ev)

subsection \<open>A torrent without the \<^verbatim>\<open>files\<close> key\<close>

lemma path_join_absolute:
  "orig_path \<noteq> [] \<Longrightarrow> hd orig_path = CHR ''/'' \<Longrightarrow>
   path_join orig_path (path_join orig_path x) = path_join orig_path x"
  by (cases orig_path) (auto simp: path_join_def)

lemma single_and_multi_agree_absolute:
  assumes "orig_path \<noteq> []" "hd orig_path = CHR ''/''"
    and "files t1 = None" "files t2 = Some [segments]"
    and "pieces t1 = pieces t2" "piece_length t1 = piece_length t2"
    and "fs1 (path_join orig_path (name t1)) = File c"
    and "fs2 (path_join orig_path (name t2)) = Dir k"
    and "fs2 (path_join (path_join orig_path (name t2)) (slash_join segments)) = File c"
  shows "verify_torrent_contents sha1 fs1 t1 orig_path = verify_torrent_contents sha1 fs2 t2 orig_path"
  using assms path_join_absolute [OF assms(1,2), of "name t1"]
  by (simp add: verify_torrent_contents_def file_listing_def get_torrent_pieces_def Let_def)

text \<open>
  C8 at a relative data path. The same three bytes with the same two digests: as the
  file \<open>d/f\<close> of a torrent without \<^verbatim>\<open>files\<close>, it is looked for at \<open>d/d/f\<close> and
  verification fails; as the only file \<open>f\<close> of the torrent \<open>t\<close> under \<open>d/t\<close>, it verifies.
\<close>

theorem single_file_differs_relative:
  "verify_torrent_contents example_digest
     ((\<lambda>p. Absent)(''d/f'' := File [1, 2, 3]))
     \<lparr>name = ''f'', piece_length = 2, pieces = example_digest [1, 2] @ example_digest [3],
      files = None\<rparr> ''d'' = Inl (VerificationError Unable_to_get_hash_for_piece)
   \<and> verify_torrent_contents example_digest
     ((\<lambda>p. Absent)(''d/t'' := Dir 4096, ''d/t/f'' := File [1, 2, 3]))
     \<lparr>name = ''t'', piece_length = 2, pieces = example_digest [1, 2] @ example_digest [3],
      files = Some [[''f'']]\<rparr> ''d'' = Inr ()"
  by (simp add: ev)

section \<open>The recursive lister\<close>







section \<open>The mirror run\<close>

lemmas mirror_ev = mirror_def mirror_entry_def path_join_def dirname_def basename_def
  new_store_def dircache_of_def dircache_append_def transfer_def fresh_transfer_def
  resume_transfer_def read_tuples_def n_reads_def n_left_def readv_def Let_def


lemma tuples_loop_1: "tuples_loop m s 1 off = ([(s + off, m)], off + m)"
  by simp

lemma tuples_loop_2: "tuples_loop m s 2 off = ([(s + off, m), (s + off + m, m)], off + m + m)"
  by (simp add: numeral_2_eq_2)


subsection \<open>The directory cache\<close>

lemma makedirs_of_append: "makedirs_of (as @ bs) = makedirs_of as @ makedirs_of bs"
  by (induction as rule: makedirs_of.induct) simp_all

lemma transfer_keeps_cache:
  "var_store (transfer m rf resume rpath info dest v) = var_store v"
  "makedirs_of (var_actions (transfer m rf resume rpath info dest v)) = makedirs_of (var_actions v)"
  by (simp_all add: transfer_def fresh_transfer_def resume_transfer_def Let_def makedirs_of_append
        split: option.splits)

lemma dircache_of_append: "dircache_of (dircache_append s self d) self = dircache_of s self @ [d]"
  by (simp add: dircache_of_def dircache_append_def split: option.splits)

lemma mirror_entry_cache:
  "(var_store (mirror_entry m rf self destroot resume v entry) = var_store v
    \<and> makedirs_of (var_actions (mirror_entry m rf self destroot resume v entry)) =
        makedirs_of (var_actions v))
   \<or> (\<exists>d. d \<notin> set (dircache_of (var_store v) self)
        \<and> var_store (mirror_entry m rf self destroot resume v entry) =
            dircache_append (var_store v) self d
        \<and> makedirs_of (var_actions (mirror_entry m rf self destroot resume v entry)) =
            makedirs_of (var_actions v) @ [d])"
proof -
  obtain rpath info where e: "entry = (rpath, info)" by (cases entry)
  show ?thesis unfolding e
    by (cases "path_join destroot (dirname rpath) \<in> set (dircache_of (var_store v) self)")
       (auto simp: mirror_entry_def Let_def transfer_keeps_cache makedirs_of_append
             split: option.splits)
qed

lemma mirror_entry_inv:
  assumes "cache_inv c0 self v"
  shows "cache_inv c0 self (mirror_entry m rf self destroot resume v entry)"
  using mirror_entry_cache [of m rf self destroot resume v entry] assms
  by (auto simp: cache_inv_def dircache_of_append)

lemma foldl_mirror_entry_inv:
  "cache_inv c0 self v \<Longrightarrow>
   cache_inv c0 self (foldl (mirror_entry m rf self destroot resume) v entries)"
  by (induction entries arbitrary: v) (simp_all add: mirror_entry_inv)

lemma snd_mirror:
  "snd (mirror m rf re root self s local path destroot resume) =
     foldl (mirror_entry m rf self destroot resume)
       \<lparr>var_n = 0, var_resume_seek = None, var_store = s, var_local = local, var_actions = []\<rparr>
       (fst (listdir_attr_recurse re path root))"
  by (cases "listdir_attr_recurse re path root") (simp add: mirror_def Let_def)


text \<open>
  C9 as the code has it. \<^verbatim>\<open>mirror\<close> does not reset the cache: a run starts with the
  cache that \<open>self\<close> reads, appends to it every directory it tries to create, and tries
  to create a directory once at most and never one that the cache held at the start.
\<close>

theorem dircache_per_run:
  "dircache_of (var_store (snd (mirror m rf re root self s local path destroot resume))) self =
     dircache_of s self @ makedirs_of (var_actions (snd (mirror m rf re root self s local path destroot resume)))
   \<and> distinct (makedirs_of (var_actions (snd (mirror m rf re root self s local path destroot resume))))
   \<and> set (makedirs_of (var_actions (snd (mirror m rf re root self s local path destroot resume))))
       \<inter> set (dircache_of s self) = {}"
proof -
  let ?v0 = "\<lparr>var_n = 0, var_resume_seek = None, var_store = s, var_local = local, var_actions = []\<rparr>"
  have "cache_inv (dircache_of s self) self ?v0" by (simp add: cache_inv_def)
  from foldl_mirror_entry_inv [OF this, of m rf destroot resume
        "fst (listdir_attr_recurse re path root)"]
  show ?thesis
    by (simp add: snd_mirror cache_inv_def)
qed


text \<open>
  The claim as it is written fails after a first run. Instance 0 mirrors \<open>r/y\<close> into
  \<open>out\<close> from a new store: the cache it would start its next run with holds \<open>out/r\<close>,
  the cache instance 1 reads holds it too, and a run of instance 1, where \<open>out/r\<close>
  does not exist, does not try to create it.
\<close>

theorem dircache_shared_counterexample:
  "dircache_of (var_store (snd (mirror 32768 (\<lambda>p. [1]) False
      (Some [Remote \<lparr>filename = ''y'', st_mode = 420, st_size = 1, st_atime = 0, st_mtime = 0\<rparr> None])
      0 new_store (\<lambda>p. Absent) ''r'' ''out'' True))) 0 = [''out/r'']
   \<and> dircache_of (var_store (snd (mirror 32768 (\<lambda>p. [1]) False
      (Some [Remote \<lparr>filename = ''y'', st_mode = 420, st_size = 1, st_atime = 0, st_mtime = 0\<rparr> None])
      0 new_store (\<lambda>p. Absent) ''r'' ''out'' True))) 1 = [''out/r'']
   \<and> var_actions (snd (mirror 32768 (\<lambda>p. [1]) False
      (Some [Remote \<lparr>filename = ''y'', st_mode = 420, st_size = 1, st_atime = 0, st_mtime = 0\<rparr> None])
      1 (var_store (snd (mirror 32768 (\<lambda>p. [1]) False
      (Some [Remote \<lparr>filename = ''y'', st_mode = 420, st_size = 1, st_atime = 0, st_mtime = 0\<rparr> None])
      0 new_store (\<lambda>p. Absent) ''r'' ''out'' True))) (\<lambda>p. Absent) ''r'' ''out'' True)) =
     [Get ''r/y'' ''out/r/y'']"
  by (simp add: mirror_ev)

subsection \<open>Read windows of a resumed transfer\<close>

lemma tuples_loop_eq:
  "tuples_loop m s k off = (map (\<lambda>j. (s + off + int j * m, m)) [0..<k], off + int k * m)"
proof (induction k arbitrary: off)
  case 0
  show ?case by simp
next
  case (Suc k)
  have "map (\<lambda>j. (s + off + int j * m, m)) [0..<Suc k] =
        (s + off, m) # map (\<lambda>j. (s + (off + m) + int j * m, m)) [0..<k]"
    by (simp add: upt_rec [of 0 "Suc k"] map_Suc_upt [symmetric] algebra_simps del: upt_Suc)
  then show ?case using Suc by (simp add: algebra_simps del: upt_Suc)
qed

lemma read_tuples_total:
  assumes "0 < m" "s < r"
  shows "sum_list (map snd (read_tuples m r s)) =
           (if (r - s) mod m = 0 then r - s - m else r - s)"
proof -
  let ?d = "r - s"
  have d: "0 < ?d" using assms by simp
  have nr: "n_reads m r s = (if ?d mod m = 0 then ?d div m - 1 else ?d div m)"
  proof (cases "?d mod m = 0")
    case True
    then have "(- ?d) div m = - (?d div m)" using assms
      by (metis dvd_neg_div mod_0_imp_dvd)
    then show ?thesis using True by (simp add: n_reads_def)
  next
    case False
    then have "(- ?d) div m = - (?d div m) - 1"
      using zdiv_zminus1_eq_if [of m ?d] assms(1) by auto
    then show ?thesis using False by (simp add: n_reads_def)
  qed
  have nn: "0 \<le> n_reads m r s"
  proof (cases "?d mod m = 0")
    case True
    then have "m \<le> ?d" using d assms(1) by (metis mod_0_imp_dvd zdvd_imp_le)
    then have "0 < ?d div m" using assms(1) pos_imp_zdiv_pos_iff [of m ?d] by blast
    then show ?thesis using True nr by simp
  next
    case False
    then show ?thesis using nr d assms(1) by (simp add: pos_imp_zdiv_nonneg_iff)
  qed
  have "sum_list (map snd (read_tuples m r s)) = int (nat (n_reads m r s)) * m + ?d mod m"
    by (simp add: read_tuples_def tuples_loop_eq n_left_def comp_def sum_list_triv split: prod.splits)
  also have "\<dots> = n_reads m r s * m + ?d mod m" using nn by simp
  also have "\<dots> = (if ?d mod m = 0 then ?d - m else ?d)"
    using nr by (auto simp: algebra_simps left_diff_distrib)
  finally show ?thesis .
qed


text \<open>
  Where the packet size does not divide the bytes left, the windows are the full
  packets from \<open>s\<close> on, followed by the rest.
\<close>

lemma read_tuples_tiles:
  assumes "0 < m" "s < r" "(r - s) mod m \<noteq> 0"
  shows "read_tuples m r s =
           map (\<lambda>j. (s + int j * m, m)) [0..<nat ((r - s) div m)] @
           [(s + ((r - s) div m) * m, (r - s) mod m)]"
proof -
  have "(- (r - s)) div m = - ((r - s) div m) - 1"
    using zdiv_zminus1_eq_if [of m "r - s"] assms by auto
  then have nr: "n_reads m r s = (r - s) div m" by (simp add: n_reads_def)
  have "0 \<le> (r - s) div m" using assms by (simp add: pos_imp_zdiv_nonneg_iff)
  then show ?thesis
    by (simp add: read_tuples_def tuples_loop_eq nr n_left_def)
qed

text \<open>
  C2 where the bytes left are a multiple of the packet size. With one byte on disk of a
  remote file of 1 + 32768 bytes the only window is (1, 0), the run appends nothing and
  the destination keeps its one byte, where a run without a local file gets all 32769.
  In general the windows add up to a packet less than the range when the packet size
  divides it (\<open>read_tuples_total\<close>).
\<close>

theorem resume_windows_exact_multiple:
  "read_tuples 32768 32769 1 = [(1, 0)]
   \<and> var_local (snd (mirror 32768 (\<lambda>p. replicate 32769 7) False
      (Some [Remote \<lparr>filename = ''y'', st_mode = 420, st_size = 32769, st_atime = 0, st_mtime = 0\<rparr> None])
      0 new_store ((\<lambda>p. Absent)(''out/r/y'' := File [7])) ''r'' ''out'' True)) ''out/r/y'' = File [7]
   \<and> var_local (snd (mirror 32768 (\<lambda>p. replicate 32769 7) False
      (Some [Remote \<lparr>filename = ''y'', st_mode = 420, st_size = 32769, st_atime = 0, st_mtime = 0\<rparr> None])
      0 new_store (\<lambda>p. Absent) ''r'' ''out'' True)) ''out/r/y'' = File (replicate 32769 7)"
  by (simp add: mirror_ev)


subsection \<open>The returned count\<close>

text \<open>
  C7 where a transfer resumes with a full window or more. One remote file of 65538 bytes
  with one byte on disk: one file is transferred, in three windows, and the run returns
  2. Two remote files, \<open>x\<close> downloaded whole and \<open>y\<close> resumed in two windows: two files
  are transferred and the run returns 1.
\<close>

theorem mirror_returns_loop_variable:
  "fst (mirror 32768 (\<lambda>p. []) False
      (Some [Remote \<lparr>filename = ''y'', st_mode = 420, st_size = 65538, st_atime = 0, st_mtime = 0\<rparr> None])
      0 new_store ((\<lambda>p. Absent)(''out/r/y'' := File [7])) ''r'' ''out'' True) = Inr 2
  \<and> var_actions (snd (mirror 32768 (\<lambda>p. []) False
      (Some [Remote \<lparr>filename = ''y'', st_mode = 420, st_size = 65538, st_atime = 0, st_mtime = 0\<rparr> None])
      0 new_store ((\<lambda>p. Absent)(''out/r/y'' := File [7])) ''r'' ''out'' True)) =
     [Makedirs ''out/r'', Readv ''r/y'' ''out/r/y'' [(1, 32768), (32769, 32768), (65537, 1)]]
  \<and> fst (mirror 32768 (\<lambda>p. []) False
      (Some [Remote \<lparr>filename = ''x'', st_mode = 420, st_size = 3, st_atime = 0, st_mtime = 0\<rparr> None,
             Remote \<lparr>filename = ''y'', st_mode = 420, st_size = 32770, st_atime = 0, st_mtime = 0\<rparr> None])
      0 new_store ((\<lambda>p. Absent)(''out/r/y'' := File [7])) ''r'' ''out'' True) = Inr 1
  \<and> var_actions (snd (mirror 32768 (\<lambda>p. []) False
      (Some [Remote \<lparr>filename = ''x'', st_mode = 420, st_size = 3, st_atime = 0, st_mtime = 0\<rparr> None,
             Remote \<lparr>filename = ''y'', st_mode = 420, st_size = 32770, st_atime = 0, st_mtime = 0\<rparr> None])
      0 new_store ((\<lambda>p. Absent)(''out/r/y'' := File [7])) ''r'' ''out'' True)) =
     [Makedirs ''out/r'', Get ''r/x'' ''out/r/x'',
      Readv ''r/y'' ''out/r/y'' [(1, 32768), (32769, 1)]]"
  by (simp add: mirror_ev tuples_loop_1 tuples_loop_2)


subsection \<open>Resume or fresh\<close>

text \<open>
  The decision the loop body takes for a file, when no offset is left over from the
  file before: nothing for a local file of the remote size, a resumed transfer at the
  local size for a local file of any other size but 0 when resume is enabled, and a
  whole download otherwise.
\<close>

lemma transfers_of_append: "transfers_of (as @ bs) = transfers_of as @ transfers_of bs"
  by (induction as rule: transfers_of.induct) simp_all

lemma mirror_entry_decision:
  assumes m: "st_mode info AND 448 \<noteq> 448"
    and d: "dest = path_join (path_join destroot (dirname rpath)) (basename rpath)"
    and ne: "dest \<noteq> path_join destroot (dirname rpath)"
    and nd: "\<not> isdir (var_local v dest)"
    and rs: "var_resume_seek v = None \<or> var_resume_seek v = Some 0 \<or> \<not> resume"
  shows "transfers_of (var_actions (mirror_entry mps rf self destroot resume v (rpath, info))) =
         transfers_of (var_actions v) @
         (case open_rb (var_local v dest) of
            None \<Rightarrow> [Get rpath dest]
          | Some c \<Rightarrow>
              if int (length c) = st_size info then []
              else if resume \<and> c \<noteq> []
              then [Readv rpath dest (read_tuples mps (st_size info) (int (length c)))]
              else [Get rpath dest])"
  using assms
  by (cases "open_rb (var_local v dest)")
     (auto simp: mirror_entry_def Let_def transfer_def fresh_transfer_def resume_transfer_def
        transfers_of_append split: option.splits)

text \<open>
  C6 where the local file is the longer one. With resume enabled, ten bytes on disk and
  a remote file of five, the run does not download from offset 0: it reads the window
  (10, 32763) of the remote file and leaves the ten bytes on disk.
\<close>

theorem resume_entered_for_longer_local:
  "var_actions (snd (mirror 32768 (\<lambda>p. [1, 2, 3, 4, 5]) False
      (Some [Remote \<lparr>filename = ''y'', st_mode = 420, st_size = 5, st_atime = 0, st_mtime = 0\<rparr> None])
      0 new_store ((\<lambda>p. Absent)(''out/r/y'' := File [1, 2, 3, 4, 5, 6, 7, 8, 9, 10])) ''r'' ''out'' True)) =
     [Makedirs ''out/r'', Readv ''r/y'' ''out/r/y'' [(10, 32763)]]
   \<and> var_local (snd (mirror 32768 (\<lambda>p. [1, 2, 3, 4, 5]) False
      (Some [Remote \<lparr>filename = ''y'', st_mode = 420, st_size = 5, st_atime = 0, st_mtime = 0\<rparr> None])
      0 new_store ((\<lambda>p. Absent)(''out/r/y'' := File [1, 2, 3, 4, 5, 6, 7, 8, 9, 10])) ''r'' ''out'' True)) ''out/r/y'' =
     File [1, 2, 3, 4, 5, 6, 7, 8, 9, 10]"
  by (simp add: mirror_ev)


end
